theory Spec2Isabelle
  imports Main
begin

section \<open>The conan documentation theme module\<close>

text \<open>
  The module \<^verbatim>\<open>_themes/conan/__init__.py\<close> binds two version strings and defines two
  functions, \<^verbatim>\<open>setup(app)\<close> and \<^verbatim>\<open>get_html_theme_path()\<close>. The second one calls
  \<^verbatim>\<open>os.path.dirname\<close> and \<^verbatim>\<open>os.path.abspath\<close>; they are modelled here after
  CPython's \<^verbatim>\<open>posixpath\<close> module (the POSIX flavour of \<^verbatim>\<open>os.path\<close>), together with the
  string methods those functions use. A Python \<^verbatim>\<open>str\<close> is a \<^typ>\<open>string\<close>.
\<close>

subsection \<open>Python values, exceptions and the process state\<close>

text \<open>
  The values the two functions take and return: \<^verbatim>\<open>None\<close>, strings, lists, and opaque
  object references (the handle \<^verbatim>\<open>app\<close> of the host application).
\<close>

datatype pyval = PyNone | PyStr string | PyList "pyval list" | PyObject nat

text \<open>
  The exceptions that can leave \<^verbatim>\<open>get_html_theme_path\<close>: \<^verbatim>\<open>NameError\<close> when the global
  \<^verbatim>\<open>__file__\<close> is not bound, and \<^verbatim>\<open>FileNotFoundError\<close> when \<^verbatim>\<open>os.getcwd()\<close> cannot
  resolve the working directory (it has been removed).
\<close>

datatype error = NameError | FileNotFoundError

text \<open>
  The process state the module can observe: the module global \<^verbatim>\<open>__file__\<close> (\<open>None\<close> when
  it is not bound) and the current working directory as \<^verbatim>\<open>os.getcwd()\<close> reports it
  (\<open>None\<close> when it cannot be resolved). The record is extensible: its \<open>more\<close> part stands
  for every other piece of process state.
\<close>

record process =
  module_file :: "string option"
  cwd :: "string option"

subsection \<open>Module constants\<close>

text \<open>\<^verbatim>\<open>__version__ = '0.2.0'\<close> and \<^verbatim>\<open>__version_full__ = __version__\<close>.\<close>

definition version :: string where
  "version = ''0.2.0''"

definition version_full :: string where
  "version_full = version"

subsection \<open>String methods\<close>

text \<open>The path separator of \<^verbatim>\<open>posixpath\<close>.\<close>

definition sep :: char where
  "sep = CHR ''/''"

text \<open>\<^verbatim>\<open>s.startswith(p)\<close> and \<^verbatim>\<open>s.endswith(p)\<close>.\<close>

definition str_startswith :: "string \<Rightarrow> string \<Rightarrow> bool" where
  "str_startswith s p = (take (length p) s = p)"

definition str_endswith :: "string \<Rightarrow> string \<Rightarrow> bool" where
  "str_endswith s p = (length p \<le> length s \<and> drop (length s - length p) s = p)"

text \<open>\<^verbatim>\<open>s.rfind(c)\<close>: the index of the last occurrence of \<open>c\<close>, or \<open>-1\<close>.\<close>

fun str_rfind :: "string \<Rightarrow> char \<Rightarrow> int" where
  "str_rfind [] c = -1"
| "str_rfind (x # xs) c =
     (let r = str_rfind xs c
      in if 0 \<le> r then r + 1 else if x = c then 0 else -1)"

text \<open>\<^verbatim>\<open>s.rstrip(c)\<close>: \<open>s\<close> without its trailing occurrences of \<open>c\<close>.\<close>

definition str_rstrip :: "string \<Rightarrow> char \<Rightarrow> string" where
  "str_rstrip s c = rev (dropWhile (\<lambda>x. x = c) (rev s))"

text \<open>\<^verbatim>\<open>s.split(c)\<close>: the fields between the occurrences of \<open>c\<close>; never an empty list.\<close>

fun str_split :: "string \<Rightarrow> char \<Rightarrow> string list" where
  "str_split [] c = [[]]"
| "str_split (x # xs) c =
     (if x = c then [] # str_split xs c
      else (x # hd (str_split xs c)) # tl (str_split xs c))"

text \<open>\<^verbatim>\<open>j.join(xs)\<close>.\<close>

fun str_join :: "string \<Rightarrow> string list \<Rightarrow> string" where
  "str_join j [] = []"
| "str_join j [x] = x"
| "str_join j (x # y # ys) = x @ j @ str_join j (y # ys)"

subsection \<open>The functions of \<^verbatim>\<open>posixpath\<close>\<close>

text \<open>
  \<^verbatim>\<open>
  def isabs(s):
      return s.startswith('/')
  \<close>
\<close>

definition os_path_isabs :: "string \<Rightarrow> bool" where
  "os_path_isabs s = str_startswith s [sep]"

text \<open>
  \<^verbatim>\<open>
  def dirname(p):
      i = p.rfind('/') + 1
      head = p[:i]
      if head and head != '/'*len(head):
          head = head.rstrip('/')
      return head
  \<close>
\<close>

definition os_path_dirname :: "string \<Rightarrow> string" where
  "os_path_dirname p =
     (let i = str_rfind p sep + 1;
          head = take (nat i) p
      in if head \<noteq> [] \<and> head \<noteq> replicate (length head) sep
         then str_rstrip head sep else head)"

text \<open>
  \<^verbatim>\<open>
  def join(a, b):
      path = a
      if b.startswith('/'):
          path = b
      elif not path or path.endswith('/'):
          path += b
      else:
          path += '/' + b
      return path
  \<close>
\<close>

definition os_path_join :: "string \<Rightarrow> string \<Rightarrow> string" where
  "os_path_join a b =
     (if str_startswith b [sep] then b
      else if a = [] \<or> str_endswith a [sep] then a @ b
      else a @ [sep] @ b)"

text \<open>
  \<^verbatim>\<open>
  def normpath(path):
      if path == '':
          return '.'
      initial_slashes = path.startswith('/')
      if (initial_slashes and
          path.startswith('//') and not path.startswith('///')):
          initial_slashes = 2
      comps = path.split('/')
      new_comps = []
      for comp in comps:
          if comp in ('', '.'):
              continue
          if (comp != '..' or (not initial_slashes and not new_comps) or
               (new_comps and new_comps[-1] == '..')):
              new_comps.append(comp)
          elif new_comps:
              new_comps.pop()
      comps = new_comps
      path = '/'.join(comps)
      if initial_slashes:
          path = '/'*initial_slashes + path
      return path or '.'
  \<close>
  The number \<open>initial_slashes\<close> is 0, 1 or 2; the loop body is \<open>normpath_step\<close>, folded
  over the components from the left with \<open>new_comps\<close> as the accumulator (the loop
  variable \<open>comp\<close> is written \<open>cmp\<close>).
\<close>

definition initial_slashes :: "string \<Rightarrow> nat" where
  "initial_slashes path =
     (if str_startswith path [sep]
      then (if str_startswith path [sep, sep] \<and> \<not> str_startswith path [sep, sep, sep]
            then 2 else 1)
      else 0)"

definition normpath_step :: "nat \<Rightarrow> string list \<Rightarrow> string \<Rightarrow> string list" where
  "normpath_step init new_comps cmp =
     (if cmp = [] \<or> cmp = ''.'' then new_comps
      else if cmp \<noteq> ''..'' \<or> (init = 0 \<and> new_comps = [])
              \<or> (new_comps \<noteq> [] \<and> last new_comps = ''..'')
      then new_comps @ [cmp]
      else if new_comps \<noteq> [] then butlast new_comps
      else new_comps)"

definition os_path_normpath :: "string \<Rightarrow> string" where
  "os_path_normpath path =
     (if path = [] then ''.''
      else
        let init = initial_slashes path;
            comps = foldl (normpath_step init) [] (str_split path sep);
            joined = str_join [sep] comps;
            res = (if init \<noteq> 0 then replicate init sep @ joined else joined)
        in if res = [] then ''.'' else res)"

text \<open>\<^verbatim>\<open>os.getcwd()\<close> reads the working directory of the process, and raises when it is gone.\<close>

definition os_getcwd :: "'a process_scheme \<Rightarrow> error + string" where
  "os_getcwd s = (case cwd s of None \<Rightarrow> Inl FileNotFoundError | Some c \<Rightarrow> Inr c)"

text \<open>
  \<^verbatim>\<open>
  def abspath(path):
      if not path.startswith('/'):
          path = join(os.getcwd(), path)
      return normpath(path)
  \<close>
\<close>

definition os_path_abspath :: "string \<Rightarrow> 'a process_scheme \<Rightarrow> error + string" where
  "os_path_abspath path s =
     (if \<not> str_startswith path [sep]
      then (case os_getcwd s of
              Inl e \<Rightarrow> Inl e
            | Inr c \<Rightarrow> Inr (os_path_normpath (os_path_join c path)))
      else Inr (os_path_normpath path))"

subsection \<open>The functions of the module\<close>

text \<open>
  Each function takes the process state and returns its outcome (an exception or a
  value) together with the process state it leaves behind.

  \<^verbatim>\<open>
  def setup(app):
      pass
  \<close>
  The word \<open>setup\<close> is reserved, so the constant is called \<open>setup_app\<close>.
\<close>

definition setup_app :: "pyval \<Rightarrow> 'a process_scheme \<Rightarrow> (error + pyval) \<times> 'a process_scheme" where
  "setup_app app s = (Inr PyNone, s)"

text \<open>
  \<^verbatim>\<open>
  def get_html_theme_path():
      cur_dir = os.path.abspath(os.path.dirname(os.path.dirname(__file__)))
      return [cur_dir]
  \<close>
\<close>

definition get_html_theme_path :: "'a process_scheme \<Rightarrow> (error + pyval) \<times> 'a process_scheme" where
  "get_html_theme_path s =
     (case module_file s of
        None \<Rightarrow> (Inl NameError, s)
      | Some file \<Rightarrow>
          (case os_path_abspath (os_path_dirname (os_path_dirname file)) s of
             Inl e \<Rightarrow> (Inl e, s)
           | Inr cur_dir \<Rightarrow> (Inr (PyList [PyStr cur_dir]), s)))"

subsection \<open>The theme directory in the words of the specification\<close>

text \<open>
  The specification describes the result as the absolute path of the parent directory
  of the directory that contains the module. The definitions below follow those words
  and are compared with \<open>get_html_theme_path\<close> later; they are not taken from the code.

  A proper name is a path component that names a directory entry: it is not empty, holds
  no separator, and is neither \<^verbatim>\<open>.\<close> nor \<^verbatim>\<open>..\<close>.
\<close>

definition is_name :: "string \<Rightarrow> bool" where
  "is_name n = (n \<noteq> [] \<and> sep \<notin> set n \<and> n \<noteq> ''.'' \<and> n \<noteq> ''..'')"

text \<open>
  Walking from a directory (given by the names on the way from the root to it) along the
  components of a path: empty components and \<^verbatim>\<open>.\<close> stay, \<^verbatim>\<open>..\<close> goes to the parent
  (the root is its own parent), a name goes down.
\<close>

definition spec_parent :: "string list \<Rightarrow> string list" where
  "spec_parent dir = butlast dir"

fun spec_walk :: "string list \<Rightarrow> string list \<Rightarrow> string list" where
  "spec_walk dir [] = dir"
| "spec_walk dir (c # cs) =
     (if c = [] \<or> c = ''.'' then spec_walk dir cs
      else if c = ''..'' then spec_walk (spec_parent dir) cs
      else spec_walk (dir @ [c]) cs)"

text \<open>
  The location of the module: its file name, taken from the working directory \<open>c\<close> when
  it is relative, walked from the root.
\<close>

definition spec_module_location :: "string \<Rightarrow> string \<Rightarrow> string list" where
  "spec_module_location c file = spec_walk [] (str_split (os_path_join c file) sep)"

text \<open>
  The theme directory: the parent of the directory that contains the module, written as
  an absolute path (POSIX keeps a root of exactly two slashes apart from \<^verbatim>\<open>/\<close>).
\<close>

definition spec_theme_path :: "string \<Rightarrow> string \<Rightarrow> string" where
  "spec_theme_path c file =
     replicate (initial_slashes (os_path_join c file)) sep
       @ str_join [sep] (spec_parent (spec_parent (spec_module_location c file)))"

text \<open>
  The module is a file of a package directory when its file name ends in two proper
  names, \<^verbatim>\<open>.../<package>/<file>\<close>.
\<close>

definition in_package_dir :: "string \<Rightarrow> bool" where
  "in_package_dir file =
     (let cs = str_split file sep
      in 2 \<le> length cs \<and> is_name (last cs) \<and> is_name (last (butlast cs)))"

section \<open>Auxiliary facts\<close>

subsection \<open>Splitting and joining\<close>

lemma str_split_nonempty: "str_split s c \<noteq> []"
  by (cases s) simp_all

text \<open>One unfolding of \<open>str_split\<close> that evaluates the recursive call once.\<close>

lemma str_split_step:
  "str_split (x # xs) c =
     (case str_split xs c of
        [] \<Rightarrow> []
      | w # ws \<Rightarrow> if x = c then [] # w # ws else (x # w) # ws)"
  using str_split_nonempty [of xs c] by (cases "str_split xs c") simp_all

lemma str_split_append: "str_split (a @ c # b) c = str_split a c @ str_split b c"
  by (induction a) (simp_all add: str_split_nonempty)

lemma str_split_no_sep: "c \<notin> set s \<Longrightarrow> str_split s c = [s]"
  by (induction s) auto

lemma str_split_replicate: "str_split (replicate k c) c = replicate (Suc k) []"
  by (induction k) simp_all

lemma str_join_Cons: "ys \<noteq> [] \<Longrightarrow> str_join j (x # ys) = x @ j @ str_join j ys"
  by (cases ys) simp_all

lemma str_join_append:
  "xs \<noteq> [] \<Longrightarrow> ys \<noteq> [] \<Longrightarrow> str_join j (xs @ ys) = str_join j xs @ j @ str_join j ys"
proof (induction xs)
  case Nil
  then show ?case by simp
next
  case (Cons x xs)
  show ?case
  proof (cases "xs = []")
    case True
    with Cons.prems show ?thesis by (simp add: str_join_Cons)
  next
    case False
    with Cons show ?thesis by (simp add: str_join_Cons)
  qed
qed

lemma str_join_split: "str_join [c] (str_split s c) = s"
proof (induction s)
  case Nil
  show ?case by simp
next
  case (Cons x xs)
  obtain y ys where r: "str_split xs c = y # ys"
    using str_split_nonempty [of xs c] by (cases "str_split xs c") auto
  show ?case
  proof (cases "x = c")
    case True
    with Cons r show ?thesis by simp
  next
    case False
    with Cons r show ?thesis by (cases ys) auto
  qed
qed


subsection \<open>The loop of normpath is a walk from the root\<close>

lemma spec_walk_append: "spec_walk dir (xs @ ys) = spec_walk (spec_walk dir xs) ys"
  by (induction xs arbitrary: dir) simp_all

lemma spec_walk_empties: "spec_walk dir (replicate k []) = dir"
  by (induction k) simp_all

lemma normpath_loop_walk:
  "init \<noteq> 0 \<Longrightarrow> ''..'' \<notin> set dir \<Longrightarrow>
     foldl (normpath_step init) dir cs = spec_walk dir cs"
proof (induction cs arbitrary: dir)
  case Nil
  show ?case by simp
next
  case (Cons c cs)
  have up: "''..'' \<notin> set (butlast dir)"
    using Cons.prems(2) by (auto dest: in_set_butlastD)
  have keep: "dir \<noteq> [] \<Longrightarrow> last dir \<noteq> ''..''"
    using Cons.prems(2) last_in_set by metis
  show ?case
  proof (cases "c = [] \<or> c = ''.''")
    case True
    then show ?thesis
      using Cons.IH [OF Cons.prems] by (auto simp: normpath_step_def)
  next
    case False
    note plain = this
    show ?thesis
    proof (cases "c = ''..''")
      case True
      then have "normpath_step init dir c = butlast dir"
        using Cons.prems(1) keep by (auto simp: normpath_step_def)
      then show ?thesis
        using True Cons.IH [OF Cons.prems(1) up] by (simp add: spec_parent_def)
    next
      case False
      then have step: "normpath_step init dir c = dir @ [c]"
        using plain by (simp add: normpath_step_def)
      have "''..'' \<notin> set (dir @ [c])"
        using False Cons.prems(2) by auto
      then show ?thesis
        using False plain step Cons.IH [OF Cons.prems(1)] by simp
    qed
  qed
qed

subsection \<open>Searching and stripping\<close>

lemma str_rfind_absent: "c \<notin> set s \<Longrightarrow> str_rfind s c = - 1"
  by (induction s) (auto simp: Let_def)

lemma str_rfind_last: "c \<notin> set m \<Longrightarrow> str_rfind (a @ c # m) c = int (length a)"
  by (induction a) (simp_all add: Let_def str_rfind_absent)

lemma str_rstrip_snoc: "x \<noteq> c \<Longrightarrow> str_rstrip (a @ [x]) c = a @ [x]"
  by (simp add: str_rstrip_def)

lemma str_rstrip_seps: "str_rstrip (a @ replicate k c) c = str_rstrip a c"
proof -
  have "dropWhile (\<lambda>x. x = c) (replicate k c @ rev a) = dropWhile (\<lambda>x. x = c) (rev a)"
    by (rule dropWhile_append2) simp
  then show ?thesis
    by (simp add: str_rstrip_def)
qed

lemma str_rstrip_decomp: "\<exists>k. s = str_rstrip s c @ replicate k c"
proof -
  have "rev s = takeWhile (\<lambda>x. x = c) (rev s) @ dropWhile (\<lambda>x. x = c) (rev s)"
    by simp
  moreover have "takeWhile (\<lambda>x. x = c) (rev s) = replicate (length (takeWhile (\<lambda>x. x = c) (rev s))) c"
    by (rule replicate_length_same [symmetric]) (auto dest: set_takeWhileD)
  ultimately have "rev s = replicate (length (takeWhile (\<lambda>x. x = c) (rev s))) c @ dropWhile (\<lambda>x. x = c) (rev s)"
    by simp
  then have "s = rev (dropWhile (\<lambda>x. x = c) (rev s)) @ replicate (length (takeWhile (\<lambda>x. x = c) (rev s))) c"
    by (metis rev_append rev_replicate rev_rev_ident)
  then show ?thesis
    unfolding str_rstrip_def by blast
qed

lemma str_rstrip_last: "str_rstrip s c \<noteq> [] \<Longrightarrow> last (str_rstrip s c) \<noteq> c"
  unfolding str_rstrip_def
  by (metis (mono_tags, lifting) dropWhile_eq_Nil_conv hd_dropWhile last_rev rev_is_Nil_conv)

lemma str_rstrip_empty: "str_rstrip s c = [] \<longleftrightarrow> s = replicate (length s) c"
proof
  assume "str_rstrip s c = []"
  then show "s = replicate (length s) c"
    using str_rstrip_decomp [of s c] by auto
next
  assume "s = replicate (length s) c"
  then have "str_rstrip s c = str_rstrip ([] @ replicate (length s) c) c" by simp
  then show "str_rstrip s c = []"
    unfolding str_rstrip_seps by (simp add: str_rstrip_def)
qed


lemma str_split_seps: "str_split (a @ replicate k c) c = str_split a c @ replicate k []"
  by (cases k) (simp_all add: str_split_append str_split_replicate)

lemma spec_walk_split_seps:
  "spec_walk dir (str_split (r @ replicate k sep) sep) = spec_walk dir (str_split r sep)"
  by (simp add: str_split_seps spec_walk_append spec_walk_empties)

subsection \<open>The root of an absolute path\<close>

lemma initial_slashes_lead:
  "initial_slashes p =
     (let k = length (takeWhile (\<lambda>x. x = sep) p)
      in if k = 0 then 0 else if k = 2 then 2 else 1)"
proof (cases p)
  case Nil
  then show ?thesis by (simp add: initial_slashes_def str_startswith_def)
next
  case p1: (Cons a p1)
  show ?thesis
  proof (cases p1)
    case Nil
    with p1 show ?thesis by (simp add: initial_slashes_def str_startswith_def)
  next
    case p2: (Cons b p2)
    show ?thesis
    proof (cases p2)
      case Nil
      with p1 p2 show ?thesis by (simp add: initial_slashes_def str_startswith_def)
    next
      case (Cons c p3)
      with p1 p2 show ?thesis by (simp add: initial_slashes_def str_startswith_def)
    qed
  qed
qed

lemma initial_slashes_abs: "p \<noteq> [] \<Longrightarrow> hd p = sep \<Longrightarrow> initial_slashes p \<noteq> 0"
  by (cases p) (simp_all add: initial_slashes_def str_startswith_def)

lemma normpath_abs_walk:
  assumes "p \<noteq> []" "hd p = sep"
  shows "os_path_normpath p =
     replicate (initial_slashes p) sep @ str_join [sep] (spec_walk [] (str_split p sep))"
proof -
  have init: "initial_slashes p \<noteq> 0"
    using assms by (rule initial_slashes_abs)
  then have "foldl (normpath_step (initial_slashes p)) [] (str_split p sep)
      = spec_walk [] (str_split p sep)"
    by (simp add: normpath_loop_walk)
  then show ?thesis
    using assms(1) init by (simp add: os_path_normpath_def Let_def)
qed

subsection \<open>The directory part of a file name\<close>

lemma os_path_dirname_file:
  assumes "sep \<notin> set m" "pkg \<noteq> []" "sep \<notin> set pkg"
  shows "os_path_dirname (pre @ pkg @ sep # m) = pre @ pkg"
proof -
  have "str_rfind ((pre @ pkg) @ sep # m) sep = int (length (pre @ pkg))"
    using assms(1) by (rule str_rfind_last)
  then have head: "take (nat (str_rfind (pre @ pkg @ sep # m) sep + 1)) (pre @ pkg @ sep # m)
      = pre @ pkg @ [sep]"
    by (simp add: nat_add_distrib)
  have "last pkg \<in> set pkg"
    using assms(2) by simp
  then have "last pkg \<in> set (pre @ pkg @ [sep])" "last pkg \<noteq> sep"
    using assms(3) by auto
  then have "pre @ pkg @ [sep] \<noteq> replicate n sep" for n
    by (metis in_set_replicate)
  then have cond: "pre @ pkg @ [sep] \<noteq> []
      \<and> pre @ pkg @ [sep] \<noteq> replicate (length (pre @ pkg @ [sep])) sep"
    by blast
  have strip: "str_rstrip (pre @ pkg @ [sep]) sep = pre @ pkg"
  proof -
    have "str_rstrip ((pre @ pkg) @ replicate 1 sep) sep = str_rstrip (pre @ pkg) sep"
      by (rule str_rstrip_seps)
    moreover have "str_rstrip ((pre @ butlast pkg) @ [last pkg]) sep = (pre @ butlast pkg) @ [last pkg]"
      using \<open>last pkg \<noteq> sep\<close> by (rule str_rstrip_snoc)
    ultimately show ?thesis
      using assms(2) by simp
  qed
  show ?thesis
    unfolding os_path_dirname_def Let_def head by (simp only: cond if_True strip simp_thms)
qed

lemma os_path_dirname_dir:
  assumes "sep \<notin> set pkg" "pre = [] \<or> last pre = sep"
  shows "os_path_dirname (pre @ pkg) =
     (if pre = replicate (length pre) sep then pre else str_rstrip pre sep)"
proof (cases "pre = []")
  case True
  then show ?thesis
    using assms(1) by (simp add: os_path_dirname_def str_rfind_absent)
next
  case False
  then obtain q where q: "pre = q @ [sep]"
    using assms(2) by (metis append_butlast_last_id)
  have "str_rfind (q @ sep # pkg) sep = int (length q)"
    using assms(1) by (rule str_rfind_last)
  then have "take (nat (str_rfind (pre @ pkg) sep + 1)) (pre @ pkg) = pre"
    unfolding q by (simp add: nat_add_distrib)
  then show ?thesis
    using False unfolding os_path_dirname_def Let_def by auto
qed


subsection \<open>Going up two levels commutes with normalisation\<close>

lemma normpath_theme_dir:
  assumes P: "P = r @ replicate i sep" and X: "X = r @ replicate j sep"
    and same: "set r \<subseteq> {sep} \<Longrightarrow> i = j"
    and ne: "P \<noteq> []" and root: "hd P = sep" and dir: "last P = sep"
    and pkg: "is_name pkg" and m: "is_name m"
  shows "os_path_normpath X =
     replicate (initial_slashes (P @ pkg @ sep # m)) sep
       @ str_join [sep] (butlast (butlast (spec_walk [] (str_split (P @ pkg @ sep # m) sep))))"
proof -
  let ?F = "P @ pkg @ sep # m"
  obtain q where q: "P = q @ [sep]"
    using ne dir by (metis append_butlast_last_id)
  have "?F = q @ sep # (pkg @ sep # m)"
    by (simp add: q)
  then have "str_split ?F sep = str_split q sep @ str_split pkg sep @ str_split m sep"
    by (simp only: str_split_append)
  then have splitF: "str_split ?F sep = str_split q sep @ [pkg, m]"
    using pkg m by (simp add: is_name_def str_split_no_sep)
  have "spec_walk [] (str_split ?F sep) = spec_walk (spec_walk [] (str_split q sep)) [pkg, m]"
    by (simp only: splitF spec_walk_append)
  then have WF: "spec_walk [] (str_split ?F sep) = spec_walk [] (str_split q sep) @ [pkg, m]"
    using pkg m by (simp add: is_name_def)
  have "spec_walk [] (str_split (q @ replicate 1 sep) sep) = spec_walk [] (str_split q sep)"
    by (rule spec_walk_split_seps)
  then have Wq: "spec_walk [] (str_split q sep) = spec_walk [] (str_split P sep)"
    by (simp add: q)
  have WP: "spec_walk [] (str_split P sep) = spec_walk [] (str_split r sep)"
    unfolding P by (rule spec_walk_split_seps)
  have WX: "spec_walk [] (str_split X sep) = spec_walk [] (str_split r sep)"
    unfolding X by (rule spec_walk_split_seps)
  have up: "butlast (butlast (spec_walk [] (str_split ?F sep))) = spec_walk [] (str_split X sep)"
    by (simp add: WF Wq WP WX butlast_append)
  have Xabs: "X \<noteq> [] \<and> hd X = sep"
  proof (cases "r = []")
    case True
    then have "i = j" using same by simp
    then show ?thesis using P X ne root by simp
  next
    case False
    then show ?thesis using P X root by simp
  qed
  have lead: "length (takeWhile (\<lambda>x. x = sep) X) = length (takeWhile (\<lambda>x. x = sep) ?F)"
  proof (cases "set r \<subseteq> {sep}")
    case True
    then have XP: "X = P" using same P X by simp
    have all: "\<And>x. x \<in> set P \<Longrightarrow> x = sep"
      using True P by auto
    obtain x pkg' where "pkg = x # pkg'" "x \<noteq> sep"
      using pkg by (cases pkg) (auto simp: is_name_def)
    then have "takeWhile (\<lambda>x. x = sep) (pkg @ sep # m) = []"
      by simp
    then have tf: "takeWhile (\<lambda>x. x = sep) ?F = P"
      using all by (simp add: takeWhile_append2)
    have tp: "takeWhile (\<lambda>x. x = sep) P = P"
      using all by (simp add: takeWhile_eq_all_conv)
    show ?thesis by (simp only: XP tf tp)
  next
    case False
    then obtain x where x: "x \<in> set r" "\<not> x = sep" by auto
    have "takeWhile (\<lambda>x. x = sep) (r @ replicate j sep) = takeWhile (\<lambda>x. x = sep) r"
      using x by (rule takeWhile_append1)
    moreover have "takeWhile (\<lambda>x. x = sep) (r @ (replicate i sep @ pkg @ sep # m))
        = takeWhile (\<lambda>x. x = sep) r"
      using x by (rule takeWhile_append1)
    ultimately show ?thesis by (simp add: P X)
  qed
  then have "initial_slashes X = initial_slashes ?F"
    by (simp add: initial_slashes_lead)
  moreover have "os_path_normpath X =
      replicate (initial_slashes X) sep @ str_join [sep] (spec_walk [] (str_split X sep))"
    using Xabs by (simp add: normpath_abs_walk)
  ultimately show ?thesis
    by (simp only: up)
qed

lemma in_package_dir_decomp:
  assumes "in_package_dir f"
  shows "\<exists>pre pkg m. f = pre @ pkg @ sep # m \<and> is_name pkg \<and> is_name m
           \<and> (pre = [] \<or> last pre = sep)"
proof -
  define cs where "cs = str_split f sep"
  have len: "2 \<le> length cs" and m: "is_name (last cs)" and pkg: "is_name (last (butlast cs))"
    using assms by (simp_all add: in_package_dir_def cs_def Let_def)
  define xs where "xs = butlast (butlast cs)"
  have "cs \<noteq> []"
    using len by auto
  moreover have "butlast cs \<noteq> []"
  proof
    assume "butlast cs = []"
    then have "length (butlast cs) = 0" by simp
    then show False using len by simp
  qed
  ultimately have "cs \<noteq> []" "butlast cs \<noteq> []" .
  then have cs: "cs = xs @ [last (butlast cs), last cs]"
    unfolding xs_def by (metis append.assoc append_Cons append_Nil append_butlast_last_id)
  have f: "f = str_join [sep] cs"
    by (simp add: cs_def str_join_split)
  show ?thesis
  proof (cases "xs = []")
    case True
    then have "f = [] @ last (butlast cs) @ sep # last cs"
      using f cs by (metis append_Cons append_Nil str_join.simps(2,3))
    then show ?thesis using pkg m by blast
  next
    case False
    then have "str_join [sep] (xs @ [last (butlast cs), last cs])
        = str_join [sep] xs @ [sep] @ str_join [sep] [last (butlast cs), last cs]"
      by (simp add: str_join_append)
    then have "f = (str_join [sep] xs @ [sep]) @ last (butlast cs) @ sep # last cs"
      using f cs by simp
    moreover have "last (str_join [sep] xs @ [sep]) = sep" by simp
    ultimately show ?thesis using pkg m by blast
  qed
qed


subsection \<open>Absolute paths stay absolute\<close>

lemma str_startswith_sep: "str_startswith p [sep] \<longleftrightarrow> p \<noteq> [] \<and> hd p = sep"
  by (cases p) (simp_all add: str_startswith_def)

lemma os_path_isabs_iff: "os_path_isabs p \<longleftrightarrow> p \<noteq> [] \<and> hd p = sep"
  by (simp add: os_path_isabs_def str_startswith_sep)

lemma str_endswith_sep: "str_endswith p [sep] \<longleftrightarrow> p \<noteq> [] \<and> last p = sep"
  by (cases p rule: rev_cases) (simp_all add: str_endswith_def)

lemma str_rfind_present: "c \<in> set s \<Longrightarrow> 0 \<le> str_rfind s c"
  by (induction s) (auto simp: Let_def)

lemma str_rstrip_hd: "str_rstrip s c \<noteq> [] \<Longrightarrow> hd (str_rstrip s c) = hd s"
  using str_rstrip_decomp [of s c] by (metis hd_append2)

lemma os_path_dirname_isabs:
  assumes "os_path_isabs p"
  shows "os_path_isabs (os_path_dirname p)"
proof -
  obtain p' where p: "p = sep # p'"
    using assms by (cases p) (auto simp: os_path_isabs_iff)
  then have "sep \<in> set p"
    by simp
  then have "0 \<le> str_rfind p sep"
    by (rule str_rfind_present)
  then obtain n where n: "nat (str_rfind p sep + 1) = Suc n"
    by (metis Suc_nat_eq_nat_zadd1 add.commute)
  define head where "head = take (Suc n) p"
  have head: "head \<noteq> []" "hd head = sep"
    by (simp_all add: head_def p)
  have dir: "os_path_dirname p =
      (if head \<noteq> [] \<and> head \<noteq> replicate (length head) sep then str_rstrip head sep else head)"
    unfolding os_path_dirname_def Let_def n head_def by (rule refl)
  show ?thesis
  proof (cases "head = replicate (length head) sep")
    case True
    then show ?thesis using dir head by (simp add: os_path_isabs_iff)
  next
    case False
    then have "str_rstrip head sep \<noteq> []"
      by (simp add: str_rstrip_empty)
    then show ?thesis
      using False dir head by (simp add: os_path_isabs_iff str_rstrip_hd)
  qed
qed

lemma os_path_normpath_isabs:
  assumes "os_path_isabs p"
  shows "os_path_isabs (os_path_normpath p)"
proof -
  have p: "p \<noteq> []" "hd p = sep"
    using assms by (simp_all add: os_path_isabs_iff)
  then obtain n where "initial_slashes p = Suc n"
    using initial_slashes_abs [of p] by (cases "initial_slashes p") auto
  then show ?thesis
    using p by (simp add: normpath_abs_walk os_path_isabs_iff)
qed

lemma os_path_join_isabs: "os_path_isabs c \<Longrightarrow> os_path_isabs (os_path_join c p)"
  by (auto simp: os_path_join_def os_path_isabs_iff str_startswith_sep)

lemma os_path_abspath_of_abs:
  "os_path_isabs p \<Longrightarrow> os_path_abspath p s = Inr (os_path_normpath p)"
  by (simp add: os_path_abspath_def os_path_isabs_def)

lemma os_path_abspath_isabs:
  assumes "os_path_abspath p s = Inr a" "os_path_isabs p \<or> (\<forall>c. cwd s = Some c \<longrightarrow> os_path_isabs c)"
  shows "os_path_isabs a"
proof (cases "os_path_isabs p")
  case True
  then show ?thesis
    using assms(1) by (auto simp: os_path_abspath_of_abs os_path_normpath_isabs)
next
  case False
  then obtain c where c: "cwd s = Some c" and a: "a = os_path_normpath (os_path_join c p)"
    using assms(1)
    by (auto simp: os_path_abspath_def os_path_isabs_def os_getcwd_def split: option.splits)
  then have "os_path_isabs c"
    using assms(2) False by simp
  then show ?thesis
    unfolding a by (intro os_path_normpath_isabs os_path_join_isabs)
qed

lemma get_html_theme_path_of_abs:
  assumes "module_file s = Some f" "os_path_isabs f"
  shows "get_html_theme_path s =
     (Inr (PyList [PyStr (os_path_normpath (os_path_dirname (os_path_dirname f)))]), s)"
proof -
  have "os_path_isabs (os_path_dirname (os_path_dirname f))"
    using assms(2) by (intro os_path_dirname_isabs)
  then show ?thesis
    using assms(1) by (simp add: get_html_theme_path_def os_path_abspath_of_abs)
qed

lemma get_html_theme_path_of_cwd:
  assumes "module_file s = Some f" "cwd s = Some c"
  shows "\<exists>a. get_html_theme_path s = (Inr (PyList [PyStr a]), s)"
  using assms by (simp add: get_html_theme_path_def os_path_abspath_def os_getcwd_def)

lemma get_html_theme_path_frame: "snd (get_html_theme_path s) = s"
  by (simp add: get_html_theme_path_def split: option.splits sum.splits)

lemma get_html_theme_path_reads:
  assumes "module_file s = module_file s'" "cwd s = cwd s'"
  shows "fst (get_html_theme_path s) = fst (get_html_theme_path s')"
  using assms
  by (simp add: get_html_theme_path_def os_path_abspath_def os_getcwd_def
      split: option.splits sum.splits)

subsection \<open>The theme directory of a module in a package directory\<close>

lemma dirname_twice:
  assumes "is_name pkg" "is_name m" "pre = [] \<or> last pre = sep"
  shows "os_path_dirname (os_path_dirname (pre @ pkg @ sep # m)) =
     (if pre = replicate (length pre) sep then pre else str_rstrip pre sep)"
  using assms by (simp add: is_name_def os_path_dirname_file os_path_dirname_dir)

lemma theme_dir_of_abs:
  assumes pkg: "is_name pkg" and m: "is_name m" and pre: "pre = [] \<or> last pre = sep"
    and abs: "os_path_isabs (pre @ pkg @ sep # m)"
  shows "os_path_normpath (os_path_dirname (os_path_dirname (pre @ pkg @ sep # m))) =
     spec_theme_path c (pre @ pkg @ sep # m)"
proof -
  let ?f = "pre @ pkg @ sep # m"
  let ?up = "replicate (initial_slashes ?f) sep
       @ str_join [sep] (butlast (butlast (spec_walk [] (str_split ?f sep))))"
  have "pkg \<noteq> []" "sep \<notin> set pkg"
    using pkg by (simp_all add: is_name_def)
  then have hd_pkg: "hd pkg \<noteq> sep"
    by (cases pkg) auto
  have hd_f: "hd ?f = sep"
    using abs by (simp add: os_path_isabs_iff)
  have pre_ne: "pre \<noteq> []"
  proof
    assume "pre = []"
    then have "hd ?f = hd pkg"
      using \<open>pkg \<noteq> []\<close> by simp
    then show False
      using hd_f \<open>hd pkg \<noteq> sep\<close> by simp
  qed
  then have "hd pre = sep" "last pre = sep"
    using hd_f pre by simp_all
  note P = pre_ne this
  define allsep where "allsep \<longleftrightarrow> pre = replicate (length pre) sep"
  define r where "r = str_rstrip pre sep"
  obtain k where k: "pre = r @ replicate k sep"
    unfolding r_def using str_rstrip_decomp by blast
  have "os_path_normpath (if allsep then pre else r) = ?up"
  proof (cases allsep)
    case True
    have "os_path_normpath pre = ?up"
    proof (rule normpath_theme_dir [where j = 0 and i = 0, OF _ _ _ P pkg m])
      show "pre = pre @ replicate 0 sep" by simp
      show "pre = pre @ replicate 0 sep" by simp
    qed simp
    then show ?thesis using True by simp
  next
    case False
    then have ne: "r \<noteq> []"
      unfolding allsep_def r_def by (simp only: str_rstrip_empty not_False_eq_True)
    then have "last r \<in> set r" "last r \<noteq> sep"
      by (simp_all add: r_def str_rstrip_last)
    then have notall: "\<not> set r \<subseteq> {sep}"
      by blast
    have "os_path_normpath r = ?up"
    proof (rule normpath_theme_dir [where j = 0, OF k _ _ P pkg m])
      show "r = r @ replicate 0 sep" by simp
      show "set r \<subseteq> {sep} \<Longrightarrow> k = 0" using notall by simp
    qed
    then show ?thesis using False by simp
  qed
  moreover have "os_path_join c ?f = ?f"
    using abs by (simp add: os_path_join_def os_path_isabs_def)
  moreover have "os_path_dirname (os_path_dirname ?f) = (if allsep then pre else r)"
    unfolding r_def allsep_def using pkg m pre by (rule dirname_twice)
  ultimately show ?thesis
    by (simp only: spec_theme_path_def spec_module_location_def spec_parent_def)
qed


lemma theme_dir_of_rel:
  assumes pkg: "is_name pkg" and m: "is_name m" and pre: "pre = [] \<or> last pre = sep"
    and rel: "\<not> os_path_isabs (pre @ pkg @ sep # m)" and c: "os_path_isabs c"
  shows "\<not> os_path_isabs (os_path_dirname (os_path_dirname (pre @ pkg @ sep # m)))
     \<and> os_path_normpath (os_path_join c (os_path_dirname (os_path_dirname (pre @ pkg @ sep # m)))) =
         spec_theme_path c (pre @ pkg @ sep # m)"
proof -
  let ?f = "pre @ pkg @ sep # m"
  define J where "J = (if str_endswith c [sep] then c else c @ [sep])"
  let ?F = "(J @ pre) @ pkg @ sep # m"
  let ?up = "replicate (initial_slashes ?F) sep
       @ str_join [sep] (butlast (butlast (spec_walk [] (str_split ?F sep))))"
  define r where "r = str_rstrip pre sep"
  define allsep where "allsep \<longleftrightarrow> pre = replicate (length pre) sep"
  define d where "d = (if allsep then pre else r)"
  have d: "os_path_dirname (os_path_dirname ?f) = d"
    unfolding d_def r_def allsep_def using pkg m pre by (rule dirname_twice)
  have c_ne: "c \<noteq> []" and hd_c: "hd c = sep"
    using c by (simp_all add: os_path_isabs_iff)
  have J: "J \<noteq> []" "hd J = sep" "last J = sep"
    using c_ne hd_c by (simp_all add: J_def str_endswith_sep)
  have rel_f: "\<not> str_startswith ?f [sep]"
    using rel by (simp only: os_path_isabs_def not_False_eq_True)
  have rel_pre: "pre \<noteq> [] \<Longrightarrow> hd pre \<noteq> sep"
    using rel_f by (simp add: str_startswith_sep)
  obtain k where k: "pre = r @ replicate k sep"
    unfolding r_def using str_rstrip_decomp by blast
  have joinf: "os_path_join c ?f = ?F"
    using rel_f c_ne by (simp add: os_path_join_def J_def)
  have main: "\<not> os_path_isabs d \<and> os_path_normpath (os_path_join c d) = ?up"
  proof (cases "pre = []")
    case True
    then have d0: "d = []"
      by (simp add: d_def allsep_def r_def str_rstrip_def)
    have "os_path_normpath J = ?up"
    proof (rule normpath_theme_dir [where i = 0 and j = 0, OF _ _ _ _ _ _ pkg m])
      show "J @ pre = J @ replicate 0 sep" using True by simp
      show "J = J @ replicate 0 sep" by simp
      show "J @ pre \<noteq> []" "hd (J @ pre) = sep" "last (J @ pre) = sep"
        using J True by simp_all
    qed simp
    moreover have "os_path_join c [] = J"
      using c_ne by (simp add: os_path_join_def J_def str_startswith_def)
    ultimately show ?thesis
      by (simp add: d0 os_path_isabs_iff)
  next
    case False
    then have hd_pre: "hd pre \<noteq> sep" and last_pre: "last pre = sep"
      using rel_pre pre by simp_all
    have "\<not> allsep"
    proof
      assume allsep
      then have "pre = replicate (length pre) sep"
        by (simp only: allsep_def)
      then have "hd pre = hd (replicate (length pre) sep)"
        by (rule arg_cong)
      then have "hd pre = sep"
        using False by (cases "length pre") simp_all
      then show False using hd_pre by simp
    qed
    then have dd: "d = r" and ne: "r \<noteq> []"
      unfolding d_def allsep_def r_def by (simp_all only: str_rstrip_empty if_False not_False_eq_True)
    have "hd r = hd pre"
      using ne unfolding r_def by (rule str_rstrip_hd)
    then have hd_r: "hd r \<noteq> sep"
      using hd_pre by simp
    have "last r \<noteq> sep"
      using ne unfolding r_def by (rule str_rstrip_last)
    moreover have "last r \<in> set (J @ r)"
      using ne by simp
    ultimately have notall: "\<not> set (J @ r) \<subseteq> {sep}"
      by blast
    have "os_path_normpath (J @ r) = ?up"
    proof (rule normpath_theme_dir [where j = 0 and i = k, OF _ _ _ _ _ _ pkg m])
      show "J @ pre = (J @ r) @ replicate k sep" by (subst k) simp
      show "J @ r = (J @ r) @ replicate 0 sep" by simp
      show "set (J @ r) \<subseteq> {sep} \<Longrightarrow> k = 0" using notall by simp
      show "J @ pre \<noteq> []" "hd (J @ pre) = sep" "last (J @ pre) = sep"
        using J False last_pre by simp_all
    qed
    moreover have "\<not> str_startswith r [sep]"
      using hd_r by (simp add: str_startswith_sep)
    then have "os_path_join c r = J @ r"
      using c_ne by (simp add: os_path_join_def J_def)
    ultimately show ?thesis
      using hd_r by (simp add: dd os_path_isabs_iff)
  qed
  show ?thesis
    unfolding d spec_theme_path_def spec_module_location_def spec_parent_def joinf
    using main by (rule conj_forward) simp_all
qed

section \<open>The claims\<close>

text \<open>
  Claim C1, as stated: every call returns the absolute path of the parent of the
  directory that contains the module. It fails when \<^verbatim>\<open>__file__\<close> is a bare relative
  file name: both \<^verbatim>\<open>dirname\<close> calls then yield the empty string, and the call returns
  the working directory, which is the directory that contains the module and not its
  parent.
\<close>

theorem get_html_theme_path_bare_file_counterexample:
  "fst (get_html_theme_path \<lparr>module_file = Some ''__init__.py'', cwd = Some ''/x/y/_themes/conan''\<rparr>)
     = Inr (PyList [PyStr ''/x/y/_themes/conan''])
   \<and> spec_theme_path ''/x/y/_themes/conan'' ''__init__.py'' = ''/x/y/_themes''"
  by (simp add: get_html_theme_path_def os_path_abspath_def os_path_dirname_def sep_def
      str_rstrip_def str_startswith_def str_endswith_def os_path_normpath_def
      os_path_join_def os_getcwd_def initial_slashes_def normpath_step_def Let_def
      spec_theme_path_def spec_module_location_def spec_parent_def
      str_split_step del: str_split.simps(2))

text \<open>
  Claim C1, amended: when \<^verbatim>\<open>__file__\<close> ends in two proper names,
  \<^verbatim>\<open>.../<package>/<file>\<close>, and is absolute or the working directory is known and
  absolute, the call returns the one-element list holding the absolute path of the
  parent of the directory that contains the module, and leaves the process state as
  it was.
\<close>

theorem get_html_theme_path_theme_dir:
  assumes mfile: "module_file s = Some f"
    and pkg_dir: "in_package_dir f"
    and loc: "os_path_isabs f \<or> (cwd s = Some c \<and> os_path_isabs c)"
  shows "get_html_theme_path s = (Inr (PyList [PyStr (spec_theme_path c f)]), s)"
proof -
  obtain pre pkg m where f: "f = pre @ pkg @ sep # m"
    and names: "is_name pkg" "is_name m" and pre: "pre = [] \<or> last pre = sep"
    using in_package_dir_decomp [OF pkg_dir] by blast
  show ?thesis
  proof (cases "os_path_isabs f")
    case True
    have "os_path_normpath (os_path_dirname (os_path_dirname f)) = spec_theme_path c f"
      using names pre True unfolding f by (rule theme_dir_of_abs)
    then show ?thesis
      using mfile True by (simp add: get_html_theme_path_of_abs)
  next
    case False
    then have wd: "cwd s = Some c" and c: "os_path_isabs c"
      using loc by simp_all
    have "\<not> os_path_isabs (os_path_dirname (os_path_dirname f))
      \<and> os_path_normpath (os_path_join c (os_path_dirname (os_path_dirname f)))
          = spec_theme_path c f"
      using names pre False c unfolding f by (rule theme_dir_of_rel)
    then show ?thesis
      using mfile wd
      by (simp add: get_html_theme_path_def os_path_abspath_def os_getcwd_def
          os_path_isabs_def)
  qed
qed

theorem get_html_theme_path_theme_dir_witness:
  "get_html_theme_path \<lparr>module_file = Some ''conan/__init__.py'', cwd = Some ''/x/y/_themes''\<rparr>
     = (Inr (PyList [PyStr (spec_theme_path ''/x/y/_themes'' ''conan/__init__.py'')]),
        \<lparr>module_file = Some ''conan/__init__.py'', cwd = Some ''/x/y/_themes''\<rparr>)
   \<and> spec_theme_path ''/x/y/_themes'' ''conan/__init__.py'' = ''/x/y/_themes''"
proof -
  let ?s = "\<lparr>module_file = Some ''conan/__init__.py'', cwd = Some ''/x/y/_themes''\<rparr>"
  have mfile: "module_file ?s = Some ''conan/__init__.py''"
    by simp
  have pkg_dir: "in_package_dir ''conan/__init__.py''"
    by (simp add: in_package_dir_def is_name_def sep_def Let_def
        str_split_step del: str_split.simps(2))
  have loc: "os_path_isabs ''conan/__init__.py''
      \<or> (cwd ?s = Some ''/x/y/_themes'' \<and> os_path_isabs ''/x/y/_themes'')"
    by (simp add: os_path_isabs_def str_startswith_def sep_def)
  have val: "spec_theme_path ''/x/y/_themes'' ''conan/__init__.py'' = ''/x/y/_themes''"
    by (simp add: spec_theme_path_def spec_module_location_def spec_parent_def
        os_path_join_def str_startswith_def str_endswith_def initial_slashes_def sep_def
        str_split_step del: str_split.simps(2))
  have run: "get_html_theme_path ?s
      = (Inr (PyList [PyStr (spec_theme_path ''/x/y/_themes'' ''conan/__init__.py'')]), ?s)"
    using mfile pkg_dir loc by (rule get_html_theme_path_theme_dir)
  show ?thesis
    using run val by (rule conjI)
qed

text \<open>
  Claim C2: when \<^verbatim>\<open>__file__\<close> is \<^verbatim>\<open>/x/y/_themes/conan/__init__\<close>, the call returns the
  list \<^verbatim>\<open>["/x/y/_themes"]\<close>, whatever the rest of the process state is.
\<close>

theorem get_html_theme_path_scenario:
  "fst (get_html_theme_path (s\<lparr>module_file := Some ''/x/y/_themes/conan/__init__''\<rparr>))
     = Inr (PyList [PyStr ''/x/y/_themes''])"
  by (simp add: get_html_theme_path_def os_path_abspath_def os_path_dirname_def sep_def
      str_rstrip_def str_startswith_def os_path_normpath_def initial_slashes_def
      normpath_step_def Let_def
      str_split_step del: str_split.simps(2))

text \<open>
  Claim C3: the value a call returns is a list with exactly one element, and that
  element is an absolute path. The operating system reports the working directory as
  an absolute path; that is the second hypothesis.
\<close>

theorem get_html_theme_path_one_absolute:
  assumes "fst (get_html_theme_path s) = Inr v"
    and "\<forall>c. cwd s = Some c \<longrightarrow> os_path_isabs c"
  shows "\<exists>a. v = PyList [PyStr a] \<and> os_path_isabs a"
proof -
  obtain f where f: "module_file s = Some f"
    using assms(1) by (cases "module_file s") (simp_all add: get_html_theme_path_def)
  obtain a where a: "os_path_abspath (os_path_dirname (os_path_dirname f)) s = Inr a"
    and v: "v = PyList [PyStr a]"
    using assms(1) f by (auto simp: get_html_theme_path_def split: sum.splits)
  have "os_path_isabs a"
    using a assms(2) by (rule os_path_abspath_isabs [OF _ disjI2])
  then show ?thesis
    using v by blast
qed

theorem get_html_theme_path_one_absolute_witness:
  "fst (get_html_theme_path \<lparr>module_file = Some ''conan/__init__.py'', cwd = Some ''/x/y/_themes''\<rparr>)
     = Inr (PyList [PyStr ''/x/y/_themes''])
   \<and> (\<exists>a. PyList [PyStr ''/x/y/_themes''] = PyList [PyStr a] \<and> os_path_isabs a)"
proof -
  let ?s = "\<lparr>module_file = Some ''conan/__init__.py'', cwd = Some ''/x/y/_themes''\<rparr>"
  have run: "fst (get_html_theme_path ?s) = Inr (PyList [PyStr ''/x/y/_themes''])"
    by (simp add: get_html_theme_path_def os_path_abspath_def os_path_dirname_def sep_def
        str_rstrip_def str_startswith_def str_endswith_def os_path_normpath_def
        os_path_join_def os_getcwd_def initial_slashes_def normpath_step_def Let_def
      str_split_step del: str_split.simps(2))
  have wd: "\<forall>c. cwd ?s = Some c \<longrightarrow> os_path_isabs c"
    by (simp add: os_path_isabs_def str_startswith_def sep_def)
  show ?thesis
    using run get_html_theme_path_one_absolute [OF run wd] by simp
qed

text \<open>
  Claim C4, as stated: any two calls in one process return the same value. It fails
  when \<^verbatim>\<open>__file__\<close> is relative and the working directory of the process changes
  between the calls.
\<close>

theorem get_html_theme_path_unstable_counterexample:
  "fst (get_html_theme_path \<lparr>module_file = Some ''conan/__init__.py'', cwd = Some ''/a''\<rparr>)
     \<noteq> fst (get_html_theme_path \<lparr>module_file = Some ''conan/__init__.py'', cwd = Some ''/b''\<rparr>)"
  by (simp add: get_html_theme_path_def os_path_abspath_def os_path_dirname_def sep_def
      str_rstrip_def str_startswith_def str_endswith_def os_path_normpath_def
      os_path_join_def os_getcwd_def initial_slashes_def normpath_step_def Let_def
      str_split_step del: str_split.simps(2))

text \<open>
  Claim C4, amended: two calls in process states with the same \<^verbatim>\<open>__file__\<close> have the same
  outcome when the working directory is the same at both calls or \<^verbatim>\<open>__file__\<close> is
  absolute; in particular a call repeated at once has the outcome of the first call.
\<close>

theorem get_html_theme_path_stable:
  assumes "module_file s = module_file s'"
    and "cwd s = cwd s' \<or> (\<exists>f. module_file s = Some f \<and> os_path_isabs f)"
  shows "fst (get_html_theme_path s) = fst (get_html_theme_path s')
     \<and> fst (get_html_theme_path (snd (get_html_theme_path s))) = fst (get_html_theme_path s)"
proof -
  have "fst (get_html_theme_path s) = fst (get_html_theme_path s')"
  proof (cases "cwd s = cwd s'")
    case True
    with assms(1) show ?thesis
      by (rule get_html_theme_path_reads)
  next
    case False
    then obtain f where "module_file s = Some f" "module_file s' = Some f" "os_path_isabs f"
      using assms by auto
    then show ?thesis
      by (simp add: get_html_theme_path_of_abs)
  qed
  then show ?thesis
    by (simp add: get_html_theme_path_frame)
qed

theorem get_html_theme_path_stable_witness:
  "fst (get_html_theme_path \<lparr>module_file = Some ''/x/y/_themes/conan/__init__.py'', cwd = Some ''/a''\<rparr>)
     = fst (get_html_theme_path \<lparr>module_file = Some ''/x/y/_themes/conan/__init__.py'', cwd = Some ''/b''\<rparr>)"
proof -
  let ?s = "\<lparr>module_file = Some ''/x/y/_themes/conan/__init__.py'', cwd = Some ''/a''\<rparr>"
  let ?s' = "\<lparr>module_file = Some ''/x/y/_themes/conan/__init__.py'', cwd = Some ''/b''\<rparr>"
  have "module_file ?s = module_file ?s'"
    by simp
  moreover have "cwd ?s = cwd ?s' \<or> (\<exists>f. module_file ?s = Some f \<and> os_path_isabs f)"
    by (simp add: os_path_isabs_def str_startswith_def sep_def)
  ultimately show ?thesis
    by (rule get_html_theme_path_stable [THEN conjunct1])
qed

text \<open>
  Claim C5, as stated: whenever \<^verbatim>\<open>__file__\<close> is defined the call raises nothing. It fails
  for a relative \<^verbatim>\<open>__file__\<close> in a process whose working directory cannot be resolved:
  \<^verbatim>\<open>os.path.abspath\<close> asks \<^verbatim>\<open>os.getcwd()\<close>, which raises.
\<close>

theorem get_html_theme_path_raises_counterexample:
  "fst (get_html_theme_path \<lparr>module_file = Some ''conan/__init__.py'', cwd = None\<rparr>)
     = Inl FileNotFoundError"
  by (simp add: get_html_theme_path_def os_path_abspath_def os_path_dirname_def sep_def
      str_rstrip_def str_startswith_def os_getcwd_def Let_def)

text \<open>
  Claim C5, amended: when \<^verbatim>\<open>__file__\<close> is defined and is absolute, or the working
  directory can be resolved, the call raises nothing, returns a one-element list and
  leaves the process state as it was.
\<close>

theorem get_html_theme_path_succeeds:
  assumes "module_file s = Some f"
    and "os_path_isabs f \<or> cwd s \<noteq> None"
  shows "\<exists>a. get_html_theme_path s = (Inr (PyList [PyStr a]), s)"
proof (cases "os_path_isabs f")
  case True
  then show ?thesis
    using assms(1) by (simp add: get_html_theme_path_of_abs)
next
  case False
  then obtain c where "cwd s = Some c"
    using assms(2) by auto
  then show ?thesis
    using assms(1) by (rule get_html_theme_path_of_cwd [rotated])
qed

theorem get_html_theme_path_succeeds_witness:
  "\<exists>a. get_html_theme_path \<lparr>module_file = Some ''/x/y/_themes/conan/__init__.py'', cwd = None\<rparr>
     = (Inr (PyList [PyStr a]),
        \<lparr>module_file = Some ''/x/y/_themes/conan/__init__.py'', cwd = None\<rparr>)"
proof -
  let ?s = "\<lparr>module_file = Some ''/x/y/_themes/conan/__init__.py'', cwd = None\<rparr>"
  have "module_file ?s = Some ''/x/y/_themes/conan/__init__.py''"
    by simp
  moreover have "os_path_isabs ''/x/y/_themes/conan/__init__.py'' \<or> cwd ?s \<noteq> None"
    by (simp add: os_path_isabs_def str_startswith_def sep_def)
  ultimately show ?thesis
    by (rule get_html_theme_path_succeeds)
qed

text \<open>
  Claim C6: for every argument \<open>app\<close>, the placeholder \<^verbatim>\<open>None\<close> included, \<^verbatim>\<open>setup(app)\<close>
  raises nothing and returns \<^verbatim>\<open>None\<close>.
\<close>

theorem setup_app_returns_none:
  "fst (setup_app app s) = Inr PyNone \<and> fst (setup_app PyNone s) = Inr PyNone"
  by (simp add: setup_app_def)

text \<open>
  Claim C7: for every argument \<open>app\<close>, \<^verbatim>\<open>setup(app)\<close> leaves the whole process state,
  observed or not, as it found it.
\<close>

theorem setup_app_no_effect:
  "snd (setup_app app s) = s"
  by (simp add: setup_app_def)

text \<open>
  Claim C8, as stated: the result of \<^verbatim>\<open>get_html_theme_path\<close> depends on the location of
  the module only, not on the working directory. It fails for a relative \<^verbatim>\<open>__file__\<close>:
  the same module gives a different result from a different working directory.
\<close>

theorem get_html_theme_path_reads_cwd_counterexample:
  "fst (get_html_theme_path \<lparr>module_file = Some ''_themes/conan/__init__.py'', cwd = Some ''/docs''\<rparr>)
     = Inr (PyList [PyStr ''/docs/_themes''])
   \<and> fst (get_html_theme_path \<lparr>module_file = Some ''_themes/conan/__init__.py'', cwd = Some ''/tmp''\<rparr>)
     = Inr (PyList [PyStr ''/tmp/_themes''])"
  by (simp add: get_html_theme_path_def os_path_abspath_def os_path_dirname_def sep_def
      str_rstrip_def str_startswith_def str_endswith_def os_path_normpath_def
      os_path_join_def os_getcwd_def initial_slashes_def normpath_step_def Let_def
      str_split_step del: str_split.simps(2))

text \<open>
  Claim C8, amended: neither function changes the process state; the outcome of
  \<^verbatim>\<open>get_html_theme_path\<close> depends on \<^verbatim>\<open>__file__\<close> and the working directory only, and
  on \<^verbatim>\<open>__file__\<close> alone when \<^verbatim>\<open>__file__\<close> is absolute.
\<close>

theorem module_functions_pure:
  "snd (setup_app app s) = s
   \<and> snd (get_html_theme_path s) = s
   \<and> (module_file s = module_file s' \<and> cwd s = cwd s'
        \<longrightarrow> fst (get_html_theme_path s) = fst (get_html_theme_path s'))
   \<and> (module_file s = Some f \<and> module_file s' = Some f \<and> os_path_isabs f
        \<longrightarrow> fst (get_html_theme_path s) = fst (get_html_theme_path s'))"
proof (intro conjI impI)
  show "snd (setup_app app s) = s"
    by (simp add: setup_app_def)
  show "snd (get_html_theme_path s) = s"
    by (rule get_html_theme_path_frame)
next
  assume "module_file s = module_file s' \<and> cwd s = cwd s'"
  then show "fst (get_html_theme_path s) = fst (get_html_theme_path s')"
    by (intro get_html_theme_path_reads) simp_all
next
  assume "module_file s = Some f \<and> module_file s' = Some f \<and> os_path_isabs f"
  then show "fst (get_html_theme_path s) = fst (get_html_theme_path s')"
    by (simp add: get_html_theme_path_of_abs)
qed

theorem module_functions_pure_witness:
  "snd (setup_app (PyObject 0) \<lparr>module_file = Some ''/x/y/_themes/conan/__init__.py'', cwd = Some ''/a''\<rparr>)
     = \<lparr>module_file = Some ''/x/y/_themes/conan/__init__.py'', cwd = Some ''/a''\<rparr>
   \<and> snd (get_html_theme_path \<lparr>module_file = Some ''/x/y/_themes/conan/__init__.py'', cwd = Some ''/a''\<rparr>)
     = \<lparr>module_file = Some ''/x/y/_themes/conan/__init__.py'', cwd = Some ''/a''\<rparr>
   \<and> fst (get_html_theme_path \<lparr>module_file = Some ''/x/y/_themes/conan/__init__.py'', cwd = Some ''/a''\<rparr>)
     = fst (get_html_theme_path \<lparr>module_file = Some ''/x/y/_themes/conan/__init__.py'', cwd = None\<rparr>)"
proof -
  let ?f = "''/x/y/_themes/conan/__init__.py''"
  let ?s = "\<lparr>module_file = Some ?f, cwd = Some ''/a''\<rparr>"
  let ?s' = "\<lparr>module_file = Some ?f, cwd = None\<rparr>"
  have abs: "module_file ?s = Some ?f \<and> module_file ?s' = Some ?f \<and> os_path_isabs ?f"
    by (simp add: os_path_isabs_def str_startswith_def sep_def)
  note pure = module_functions_pure [of "PyObject 0" ?s ?s' ?f]
  have "snd (setup_app (PyObject 0) ?s) = ?s"
    by (rule pure [THEN conjunct1])
  moreover have "snd (get_html_theme_path ?s) = ?s"
    by (rule pure [THEN conjunct2, THEN conjunct1])
  moreover have "fst (get_html_theme_path ?s) = fst (get_html_theme_path ?s')"
    by (rule mp [OF pure [THEN conjunct2, THEN conjunct2, THEN conjunct2] abs])
  ultimately show ?thesis
    by (intro conjI)
qed

text \<open>
  Claim C10: the module's two version strings are equal, and both are the fixed string
  \<^verbatim>\<open>0.2.0\<close>.
\<close>

theorem version_constants:
  "version_full = version \<and> version = ''0.2.0'' \<and> version_full = ''0.2.0''"
  by (simp add: version_full_def version_def)

end
